theory Spec2Isabelle
  imports Complex_Main "HOL-Library.Word"
begin

section \<open>Text extractor node: file-type detection, PDF strategy, batch dispatch\<close>

text \<open>
  A shallow embedding of \<^verbatim>\<open>src/nodes/TextExtractor/TextExtractor.node.ts\<close> and
  \<^verbatim>\<open>src/nodes/TextExtractor/pdfToImages.ts\<close>.

  Conventions of the embedding:
  \<^item> A JavaScript string is a \<open>string\<close>: a list of code units, here restricted to the
    range 0..255, so \<open>length\<close> is the \<^verbatim>\<open>.length\<close> of the source.
  \<^item> \<^verbatim>\<open>undefined\<close>/\<^verbatim>\<open>null\<close> are \<open>None\<close>.
  \<^item> A finite JavaScript number is a \<open>rat\<close> (every finite double is rational), an array
    length or page count a \<open>nat\<close>; the non-finite results of a division are constructors
    of \<open>number\<close>.
  \<^item> An object literal used as a dictionary is an association list in property order,
    read by \<open>js_get\<close>, which also finds the members inherited from
    \<^verbatim>\<open>Object.prototype\<close>, as property access does.
  \<^item> Every call of an external collaborator (OCR engine, PDF libraries, host runtime) is
    a field of the record \<open>env\<close>; a call that throws returns \<open>Inl\<close>. Calls are logged
    in an event list, so that a statement can say which collaborators were invoked.
\<close>

subsection \<open>Strings\<close>

definition is_whitespace :: "char \<Rightarrow> bool" where
  \<comment> \<open>WhiteSpace and LineTerminator code units below 256: TAB, LF, VT, FF, CR, SP, NBSP.\<close>
  "is_whitespace c = (of_char c \<in> {9, 10, 11, 12, 13, 32, 160 :: nat})"

definition trim :: "string \<Rightarrow> string" where
  \<comment> \<open>\<^verbatim>\<open>String.prototype.trim\<close>\<close>
  "trim s = rev (dropWhile is_whitespace (rev (dropWhile is_whitespace s)))"

definition toLowerCase_unit :: "char \<Rightarrow> char" where
  \<comment> \<open>A-Z and the Latin-1 capitals (U+00C0..U+00DE without U+00D7) move up by 32.\<close>
  "toLowerCase_unit c =
     (let n = (of_char c :: nat)
      in if (65 \<le> n \<and> n \<le> 90) \<or> (192 \<le> n \<and> n \<le> 222 \<and> n \<noteq> 215)
         then char_of (n + 32) else c)"

definition toLowerCase :: "string \<Rightarrow> string" where
  "toLowerCase s = map toLowerCase_unit s"

fun split :: "char \<Rightarrow> string \<Rightarrow> string list" where
  \<comment> \<open>\<^verbatim>\<open>s.split(c)\<close> for a one-character separator; never the empty array.\<close>
  "split c [] = [[]]"
| "split c (x # xs) =
     (if x = c then [] # split c xs
      else (x # hd (split c xs)) # tl (split c xs))"

definition pop :: "'a list \<Rightarrow> 'a option" where
  \<comment> \<open>\<^verbatim>\<open>Array.prototype.pop\<close>, the returned element only.\<close>
  "pop xs = (if xs = [] then None else Some (last xs))"

fun join :: "string \<Rightarrow> string list \<Rightarrow> string" where
  \<comment> \<open>\<^verbatim>\<open>Array.prototype.join\<close>\<close>
  "join sep [] = []"
| "join sep [x] = x"
| "join sep (x # y # ys) = x @ sep @ join sep (y # ys)"

definition startsWith :: "string \<Rightarrow> string \<Rightarrow> bool" where
  \<comment> \<open>\<^verbatim>\<open>s.startsWith(p)\<close>\<close>
  "startsWith s p = (take (length p) s = p)"

subsection \<open>Objects used as dictionaries\<close>

datatype 'v property = Own 'v | Inherited string

definition Object_prototype_keys :: "string list" where
  "Object_prototype_keys =
     [''constructor'', ''__defineGetter__'', ''__defineSetter__'', ''hasOwnProperty'',
      ''__lookupGetter__'', ''__lookupSetter__'', ''isPrototypeOf'',
      ''propertyIsEnumerable'', ''toString'', ''valueOf'', ''__proto__'',
      ''toLocaleString'']"

definition js_get :: "(string \<times> 'v) list \<Rightarrow> string \<Rightarrow> 'v property option" where
  \<comment> \<open>\<^verbatim>\<open>obj[key]\<close> on an object literal: the own property, else the member of
      \<^verbatim>\<open>Object.prototype\<close> of that name, else \<^verbatim>\<open>undefined\<close>.\<close>
  "js_get obj key =
     (case map_of obj key of
        Some v \<Rightarrow> Some (Own v)
      | None \<Rightarrow> if key \<in> set Object_prototype_keys then Some (Inherited key) else None)"

subsection \<open>File type detection\<close>

datatype FileType = Image | Pdf | Docx | Doc | Txt

definition MIME_MAP :: "(string \<times> FileType) list" where
  "MIME_MAP =
     [(''image/png'', Image), (''image/jpeg'', Image), (''image/jpg'', Image),
      (''image/webp'', Image), (''image/bmp'', Image), (''image/tiff'', Image),
      (''image/gif'', Image), (''application/pdf'', Pdf),
      (''application/vnd.openxmlformats-officedocument.wordprocessingml.document'', Docx),
      (''application/msword'', Doc), (''text/plain'', Txt)]"

definition EXT_MAP :: "(string \<times> FileType) list" where
  "EXT_MAP =
     [(''png'', Image), (''jpg'', Image), (''jpeg'', Image), (''webp'', Image),
      (''bmp'', Image), (''tiff'', Image), (''tif'', Image), (''gif'', Image),
      (''pdf'', Pdf), (''docx'', Docx), (''doc'', Doc), (''txt'', Txt)]"

definition detectFileType :: "string option \<Rightarrow> string option \<Rightarrow> FileType property option" where
  \<comment> \<open>Every value a lookup can return is truthy, the empty string is falsy.\<close>
  "detectFileType mimeType fileName =
     (case (case mimeType of
              None \<Rightarrow> None
            | Some m \<Rightarrow> if m = [] then None else js_get MIME_MAP m) of
        Some v \<Rightarrow> Some v
      | None \<Rightarrow>
          (case fileName of
             None \<Rightarrow> None
           | Some f \<Rightarrow>
               if f = [] then None
               else (case map_option toLowerCase (pop (split (CHR ''.'') f)) of
                       None \<Rightarrow> None
                     | Some ext \<Rightarrow> if ext = [] then None else js_get EXT_MAP ext)))"

text \<open>The detection algorithm as the specification words it, over the two tables read as
  finite maps from strings to kinds.\<close>

definition after_last_dot :: "string \<Rightarrow> string" where
  "after_last_dot f = rev (takeWhile (\<lambda>c. c \<noteq> CHR ''.'') (rev f))"

definition spec_detect :: "string option \<Rightarrow> string option \<Rightarrow> FileType option" where
  "spec_detect mimeType fileName =
     (if mimeType \<noteq> None \<and> the mimeType \<noteq> [] \<and> map_of MIME_MAP (the mimeType) \<noteq> None
      then map_of MIME_MAP (the mimeType)
      else if fileName \<noteq> None \<and> the fileName \<noteq> []
      then map_of EXT_MAP (toLowerCase (after_last_dot (the fileName)))
      else None)"

subsection \<open>Errors, events and external collaborators\<close>

datatype error =
    NodeOperationError string nat  \<comment> \<open>message and item index\<close>
  | Error string                   \<comment> \<open>anything a collaborator throws\<close>

fun message :: "error \<Rightarrow> string" where
  "message (NodeOperationError m i) = m"
| "message (Error m) = m"

type_synonym buffer = "8 word list"

datatype Worker = Worker string  \<comment> \<open>an engine handle, tagged with its language\<close>

record PDFDocumentProxy =
  numPages :: nat
  source :: buffer

record PngPageOutput =
  content :: "buffer option"

record IBinaryData =
  data_fileName :: "string option"
  data_mimeType :: "string option"

record item =
  binary :: "(string \<times> IBinaryData) list option"
    \<comment> \<open>the named binary fields, in the order of \<^verbatim>\<open>Object.keys\<close>\<close>
  param_pdfStrategy :: string
    \<comment> \<open>\<^verbatim>\<open>getNodeParameter('pdfStrategy', i, 'auto')\<close> as the host resolves it\<close>
  param_pdfRenderScale :: rat
  param_minTextThreshold :: rat

datatype event =
    CreateWorker string bool  \<comment> \<open>language, and whether a handle was returned\<close>
  | Terminate
  | Sharp
  | Recognize
  | GetDocumentProxy
  | ExtractText
  | PdfToPng
  | ExtractRawText
  | WordExtractorExtract

record env =
  createWorker :: "string \<Rightarrow> error + Worker"
  recognize :: "Worker \<Rightarrow> buffer \<Rightarrow> error + string \<times> rat"
  terminate :: "Worker \<Rightarrow> error option"
  sharp :: "buffer \<Rightarrow> error + buffer"
  getDocumentProxy :: "buffer \<Rightarrow> error + PDFDocumentProxy"
  extractText :: "PDFDocumentProxy \<Rightarrow> error + string"
  pdfToPng :: "buffer \<Rightarrow> rat \<Rightarrow> error + PngPageOutput list"
  extractRawText :: "buffer \<Rightarrow> error + string"
  wordExtractorExtract :: "buffer \<Rightarrow> error + string"
  toString_utf8 :: "buffer \<Rightarrow> string"
  assertBinaryData :: "item \<Rightarrow> nat \<Rightarrow> string \<Rightarrow> error + IBinaryData"
  getBinaryDataBuffer :: "item \<Rightarrow> nat \<Rightarrow> string \<Rightarrow> error + buffer"
  continueOnFail :: bool

text \<open>A computation that may throw and that logs the collaborator calls it makes.\<close>

type_synonym 'a eff = "(error + 'a) \<times> event list"

definition return_eff :: "'a \<Rightarrow> 'a eff" where
  "return_eff a = (Inr a, [])"

definition throw :: "error \<Rightarrow> 'a eff" where
  "throw e = (Inl e, [])"

definition call :: "event \<Rightarrow> error + 'a \<Rightarrow> 'a eff" where
  "call ev r = (r, [ev])"

definition bind_eff :: "'a eff \<Rightarrow> ('a \<Rightarrow> 'b eff) \<Rightarrow> 'b eff" where
  "bind_eff m f =
     (case m of
        (Inl e, evs) \<Rightarrow> (Inl e, evs)
      | (Inr a, evs) \<Rightarrow> (case f a of (r, evs') \<Rightarrow> (r, evs @ evs')))"

subsection \<open>Numbers\<close>

datatype number = Num int | NaN | PosInfinity | NegInfinity

definition Math_round :: "rat \<Rightarrow> int" where
  \<comment> \<open>nearest integer, a tie goes up\<close>
  "Math_round x = \<lfloor>x + 1 / 2\<rfloor>"

definition round_quotient :: "int \<Rightarrow> nat \<Rightarrow> number" where
  \<comment> \<open>\<^verbatim>\<open>Math.round(t / n)\<close> for an integer \<open>t\<close> and an array length \<open>n\<close>. The quotient is
      taken exactly; the double quotient rounds to the same integer for every \<open>n\<close> below
      \<open>2 ^ 46\<close> when the scores are at most 100.\<close>
  "round_quotient t n =
     (if n = 0
      then (if t = 0 then NaN else if 0 < t then PosInfinity else NegInfinity)
      else Num (Math_round (of_int t / of_nat n)))"

subsection \<open>Extraction functions\<close>

record ImageResult =
  img_text :: string
  img_confidence :: "int option"

definition extractFromImage :: "env \<Rightarrow> buffer \<Rightarrow> Worker \<Rightarrow> bool \<Rightarrow> ImageResult eff" where
  "extractFromImage env buffer worker preprocess =
     bind_eff (if preprocess then call Sharp (sharp env buffer) else return_eff buffer)
       (\<lambda>input.
     bind_eff (call Recognize (recognize env worker input))
       (\<lambda>(text, confidence).
     return_eff \<lparr>img_text = trim text, img_confidence = Some (Math_round confidence)\<rparr>))"

definition pdfToImages :: "env \<Rightarrow> buffer \<Rightarrow> rat \<Rightarrow> buffer list eff" where
  "pdfToImages env pdfBuffer scale =
     bind_eff (call PdfToPng (pdfToPng env pdfBuffer scale))
       (\<lambda>pages. return_eff (map the (filter (\<lambda>c. c \<noteq> None) (map content pages))))"

fun ocr_pages ::
  "env \<Rightarrow> Worker \<Rightarrow> bool \<Rightarrow> buffer list \<Rightarrow> string list \<Rightarrow> int \<Rightarrow> (string list \<times> int) eff" where
  \<comment> \<open>the \<^verbatim>\<open>for (const img of images)\<close> loop over \<open>texts\<close> and \<open>totalConfidence\<close>\<close>
  "ocr_pages env worker preprocess [] texts totalConfidence =
     return_eff (texts, totalConfidence)"
| "ocr_pages env worker preprocess (img # imgs) texts totalConfidence =
     bind_eff (extractFromImage env img worker preprocess)
       (\<lambda>r. ocr_pages env worker preprocess imgs (texts @ [img_text r])
              (totalConfidence + (case img_confidence r of None \<Rightarrow> 0 | Some c \<Rightarrow> c)))"

record PdfResult =
  pdf_text :: string
  pdf_pageCount :: nat
  pdf_confidence :: "number option"
  pdf_method :: string

definition extractFromPdf ::
  "env \<Rightarrow> buffer \<Rightarrow> string \<Rightarrow> Worker option \<Rightarrow> bool \<Rightarrow> rat \<Rightarrow> rat \<Rightarrow> PdfResult eff" where
  "extractFromPdf env buffer strategy worker preprocess renderScale minTextThreshold =
     (let shouldTryText = (strategy = ''auto'' \<or> strategy = ''text'');
          shouldTryOcr = (strategy = ''auto'' \<or> strategy = ''ocr'')
      in bind_eff
           (if shouldTryText
            then bind_eff (call GetDocumentProxy (getDocumentProxy env buffer))
                   (\<lambda>pdf.
                 bind_eff (call ExtractText (extractText env pdf))
                   (\<lambda>text. return_eff (trim text, numPages pdf)))
            else return_eff ([], 0))
           (\<lambda>(textResult, pageCount).
              if shouldTryText \<and> minTextThreshold \<le> of_nat (length textResult)
              then return_eff \<lparr>pdf_text = textResult, pdf_pageCount = pageCount,
                     pdf_confidence = None, pdf_method = ''pdf-text''\<rparr>
              else
                (case (if shouldTryOcr then worker else None) of
                   Some w \<Rightarrow>
                     bind_eff (pdfToImages env buffer renderScale)
                       (\<lambda>images.
                     bind_eff (ocr_pages env w preprocess images [] 0)
                       (\<lambda>(texts, totalConfidence).
                     return_eff \<lparr>pdf_text = join [CHR 0x0A, CHR 0x0A] texts,
                       pdf_pageCount = length images,
                       pdf_confidence = Some (round_quotient totalConfidence (length images)),
                       pdf_method = ''pdf-ocr''\<rparr>))
                 | None \<Rightarrow>
                     return_eff \<lparr>pdf_text = textResult, pdf_pageCount = pageCount,
                       pdf_confidence = None, pdf_method = ''pdf-text''\<rparr>)))"

definition extractFromDocx :: "env \<Rightarrow> buffer \<Rightarrow> string eff" where
  "extractFromDocx env buffer =
     bind_eff (call ExtractRawText (extractRawText env buffer)) (\<lambda>v. return_eff (trim v))"

definition extractFromDoc :: "env \<Rightarrow> buffer \<Rightarrow> string eff" where
  "extractFromDoc env buffer =
     bind_eff (call WordExtractorExtract (wordExtractorExtract env buffer))
       (\<lambda>body. return_eff (trim body))"

definition extractFromTxt :: "env \<Rightarrow> buffer \<Rightarrow> string" where
  "extractFromTxt env buffer = trim (toString_utf8 env buffer)"

subsection \<open>The batch loop of \<open>execute\<close>\<close>

record params =
  param_binaryProperty :: string
  param_operation :: string
  param_ocrLanguage :: string
  param_preprocess :: bool

text \<open>The \<^verbatim>\<open>json\<close> object of an output item. A field the source sets to
  \<^verbatim>\<open>null\<close>, or does not set, is \<open>None\<close>.\<close>

record json =
  json_text :: "string option"
  json_error :: "string option"
  json_fileName :: string
  json_mimeType :: string
  json_fileType :: "FileType property option"
  json_pageCount :: "nat option"
  json_confidence :: "number option"
  json_language :: "string option"
  json_method :: "string option"

definition resolve_fileType :: "string \<Rightarrow> string \<Rightarrow> string \<Rightarrow> FileType property option" where
  \<comment> \<open>lines 313-324: the kind chosen by the operation\<close>
  "resolve_fileType operation mimeType fileName =
     (if operation = ''auto'' then detectFileType (Some mimeType) (Some fileName)
      else if operation = ''ocr'' then Some (Own Image)
      else if operation = ''pdf'' then Some (Own Pdf)
      else (let detected = detectFileType (Some mimeType) (Some fileName)
            in if detected = Some (Own Doc) \<or> detected = Some (Own Docx)
               then detected else Some (Own Docx)))"

definition needsOcr_of :: "FileType property \<Rightarrow> item \<Rightarrow> bool" where
  \<comment> \<open>lines 335-338\<close>
  "needsOcr_of ft it =
     (ft = Own Image \<or> (ft = Own Pdf \<and> param_pdfStrategy it \<noteq> ''text''))"

definition resolve_item ::
  "env \<Rightarrow> params \<Rightarrow> nat \<Rightarrow> item \<Rightarrow> (buffer \<times> string \<times> string \<times> FileType property) eff" where
  \<comment> \<open>lines 297-332: the binary field, its metadata and the file kind\<close>
  "resolve_item env ps i it =
     (let binaryProperty = param_binaryProperty ps;
          resolvedProperty =
            (if (case binary it of None \<Rightarrow> None | Some b \<Rightarrow> js_get b binaryProperty) = None
             then (case map fst (case binary it of None \<Rightarrow> [] | Some b \<Rightarrow> b) of
                     [] \<Rightarrow> binaryProperty
                   | k # _ \<Rightarrow> k)
             else binaryProperty)
      in case assertBinaryData env it i resolvedProperty of
           Inl e \<Rightarrow> throw e
         | Inr binaryData \<Rightarrow>
             (case getBinaryDataBuffer env it i resolvedProperty of
                Inl e \<Rightarrow> throw e
              | Inr buffer \<Rightarrow>
                  (let fileName = (case data_fileName binaryData of None \<Rightarrow> ''unknown'' | Some f \<Rightarrow> f);
                       mimeType = (case data_mimeType binaryData of None \<Rightarrow> [] | Some m \<Rightarrow> m)
                   in case resolve_fileType (param_operation ps) mimeType fileName of
                        None \<Rightarrow>
                          throw (NodeOperationError
                                   (''Unsupported file type: '' @
                                      (if mimeType \<noteq> [] then mimeType else fileName)) i)
                      | Some ft \<Rightarrow> return_eff (buffer, fileName, mimeType, ft))))"

definition init_worker :: "env \<Rightarrow> string \<Rightarrow> bool \<Rightarrow> Worker option \<Rightarrow> Worker option eff" where
  \<comment> \<open>lines 340-343: the variable \<open>worker\<close> after the lazy initialisation\<close>
  "init_worker env ocrLanguage needsOcr worker =
     (if needsOcr \<and> worker = None
      then (case createWorker env ocrLanguage of
              Inl e \<Rightarrow> (Inl e, [CreateWorker ocrLanguage False])
            | Inr w \<Rightarrow> (Inr (Some w), [CreateWorker ocrLanguage True]))
      else return_eff worker)"

definition extract_item ::
  "env \<Rightarrow> params \<Rightarrow> item \<Rightarrow> buffer \<Rightarrow> FileType property \<Rightarrow> Worker option
     \<Rightarrow> (string \<times> nat option \<times> number option \<times> string) eff" where
  \<comment> \<open>lines 345-395: \<open>text\<close>, \<open>pageCount\<close>, \<open>confidence\<close> and \<open>method\<close> after the switch.
      A value that is no file kind matches no case. The image case dereferences
      \<^verbatim>\<open>worker!\<close>; a null there is a TypeError at the call of \<^verbatim>\<open>recognize\<close>.\<close>
  "extract_item env ps it buffer ft worker =
     (case ft of
        Own Image \<Rightarrow>
          (case worker of
             None \<Rightarrow>
               bind_eff (if param_preprocess ps then call Sharp (sharp env buffer)
                         else return_eff buffer)
                 (\<lambda>input. throw (Error ''Cannot read properties of null''))
           | Some w \<Rightarrow>
               bind_eff (extractFromImage env buffer w (param_preprocess ps))
                 (\<lambda>r. return_eff (img_text r, None, map_option Num (img_confidence r), ''ocr'')))
      | Own Pdf \<Rightarrow>
          bind_eff (extractFromPdf env buffer (param_pdfStrategy it) worker (param_preprocess ps)
                      (param_pdfRenderScale it) (param_minTextThreshold it))
            (\<lambda>r. return_eff (pdf_text r, Some (pdf_pageCount r), pdf_confidence r, pdf_method r))
      | Own Docx \<Rightarrow>
          bind_eff (extractFromDocx env buffer) (\<lambda>t. return_eff (t, None, None, ''docx''))
      | Own Doc \<Rightarrow>
          bind_eff (extractFromDoc env buffer) (\<lambda>t. return_eff (t, None, None, ''doc''))
      | Own Txt \<Rightarrow> return_eff (extractFromTxt env buffer, None, None, ''txt'')
      | Inherited k \<Rightarrow> return_eff ([], None, None, []))"

definition process_item ::
  "env \<Rightarrow> params \<Rightarrow> nat \<Rightarrow> item \<Rightarrow> Worker option
     \<Rightarrow> (error + json) \<times> Worker option \<times> event list" where
  \<comment> \<open>lines 296-408, the body of the inner \<^verbatim>\<open>try\<close>: what it pushes or throws, the
      variable \<open>worker\<close> afterwards, and the calls made\<close>
  "process_item env ps i it worker =
     (case resolve_item env ps i it of
        (Inl e, evs) \<Rightarrow> (Inl e, worker, evs)
      | (Inr (buffer, fileName, mimeType, ft), evs) \<Rightarrow>
          (let needsOcr = needsOcr_of ft it
           in case init_worker env (param_ocrLanguage ps) needsOcr worker of
                (Inl e, evs2) \<Rightarrow> (Inl e, worker, evs @ evs2)
              | (Inr worker', evs2) \<Rightarrow>
                  (case extract_item env ps it buffer ft worker' of
                     (Inl e, evs3) \<Rightarrow> (Inl e, worker', evs @ evs2 @ evs3)
                   | (Inr (text, pageCount, confidence, method), evs3) \<Rightarrow>
                       (Inr \<lparr>json_text = Some text, json_error = None,
                             json_fileName = fileName, json_mimeType = mimeType,
                             json_fileType = Some ft, json_pageCount = pageCount,
                             json_confidence = confidence,
                             json_language = (if needsOcr then Some (param_ocrLanguage ps) else None),
                             json_method = Some method\<rparr>,
                        worker', evs @ evs2 @ evs3))))"

definition degraded :: "params \<Rightarrow> item \<Rightarrow> error \<Rightarrow> json" where
  \<comment> \<open>lines 411-425: the record pushed by the \<^verbatim>\<open>catch\<close> under continuation. A member
      inherited from \<^verbatim>\<open>Object.prototype\<close> has neither \<^verbatim>\<open>fileName\<close> nor
      \<^verbatim>\<open>mimeType\<close>.\<close>
  "degraded ps it e =
     (let binaryData =
            (case (case binary it of None \<Rightarrow> None | Some b \<Rightarrow> js_get b (param_binaryProperty ps)) of
               Some v \<Rightarrow> Some v
             | None \<Rightarrow>
                 (case map snd (case binary it of None \<Rightarrow> [] | Some b \<Rightarrow> b) of
                    [] \<Rightarrow> None
                  | v # _ \<Rightarrow> Some (Own v)))
      in \<lparr>json_text = None, json_error = Some (message e),
          json_fileName = (case binaryData of
                        Some (Own d) \<Rightarrow> (case data_fileName d of None \<Rightarrow> ''unknown'' | Some f \<Rightarrow> f)
                      | _ \<Rightarrow> ''unknown''),
          json_mimeType = (case binaryData of
                        Some (Own d) \<Rightarrow> (case data_mimeType d of None \<Rightarrow> [] | Some m \<Rightarrow> m)
                      | _ \<Rightarrow> []),
          json_fileType = None, json_pageCount = None, json_confidence = None, json_language = None,
          json_method = None\<rparr>)"

fun run_items ::
  "env \<Rightarrow> params \<Rightarrow> nat \<Rightarrow> item list \<Rightarrow> Worker option \<Rightarrow> json list
     \<Rightarrow> (error + json list) \<times> Worker option \<times> event list" where
  \<comment> \<open>lines 295-430: the \<^verbatim>\<open>for\<close> loop from index \<open>i\<close> on, over \<open>worker\<close> and
      \<open>returnData\<close>\<close>
  "run_items env ps i [] worker returnData = (Inr returnData, worker, [])"
| "run_items env ps i (it # rest) worker returnData =
     (case process_item env ps i it worker of
        (Inr out, worker', evs) \<Rightarrow>
          (case run_items env ps (Suc i) rest worker' (returnData @ [out]) of
             (r, worker'', evs') \<Rightarrow> (r, worker'', evs @ evs'))
      | (Inl e, worker', evs) \<Rightarrow>
          if continueOnFail env
          then (case run_items env ps (Suc i) rest worker' (returnData @ [degraded ps it e]) of
                  (r, worker'', evs') \<Rightarrow> (r, worker'', evs @ evs'))
          else (Inl e, worker', evs))"

definition execute :: "env \<Rightarrow> params \<Rightarrow> item list \<Rightarrow> (error + json list) \<times> event list" where
  \<comment> \<open>lines 283-438: the loop inside \<^verbatim>\<open>try\<close>, then the \<^verbatim>\<open>finally\<close> block. An error
      thrown by \<^verbatim>\<open>terminate\<close> replaces the outcome of the loop.\<close>
  "execute env ps items =
     (case run_items env ps 0 items None [] of
        (r, worker, evs) \<Rightarrow>
          (case worker of
             None \<Rightarrow> (r, evs)
           | Some w \<Rightarrow>
               (case terminate env w of
                  None \<Rightarrow> (r, evs @ [Terminate])
                | Some e \<Rightarrow> (Inl e, evs @ [Terminate]))))"

definition worker_at :: "env \<Rightarrow> params \<Rightarrow> item list \<Rightarrow> nat \<Rightarrow> Worker option" where
  \<comment> \<open>the variable \<open>worker\<close> when the loop reaches the item of index \<open>k\<close>\<close>
  "worker_at env ps items k = fst (snd (run_items env ps 0 (take k items) None []))"

subsection \<open>A concrete host and concrete collaborators\<close>

text \<open>The inputs on which the statements below are evaluated: a host that reads the named
  binary field of the item, an engine that recognises two page images, a PDF library that
  reports two pages with either five or sixty characters of embedded text.\<close>

definition host_assertBinaryData :: "item \<Rightarrow> nat \<Rightarrow> string \<Rightarrow> error + IBinaryData" where
  "host_assertBinaryData it i p =
     (case map_of (case binary it of None \<Rightarrow> [] | Some b \<Rightarrow> b) p of
        None \<Rightarrow> Inl (NodeOperationError ''no binary data'' i)
      | Some d \<Rightarrow> Inr d)"

definition demo_env :: "string \<Rightarrow> env" where
  "demo_env pdfText =
     \<lparr>createWorker = (\<lambda>l. Inr (Worker l)),
      recognize = (\<lambda>w img. if img = [1] then Inr (''PAGE1 '', 90) else Inr (''PAGE2'', 80)),
      terminate = (\<lambda>w. None),
      sharp = (\<lambda>b. Inr b),
      getDocumentProxy = (\<lambda>b. Inr \<lparr>numPages = 2, source = b\<rparr>),
      extractText = (\<lambda>d. Inr pdfText),
      pdfToPng = (\<lambda>b s. Inr [\<lparr>content = Some [1]\<rparr>, \<lparr>content = Some [2]\<rparr>]),
      extractRawText = (\<lambda>b. Inr ''docx body''),
      wordExtractorExtract = (\<lambda>b. Inr ''doc body''),
      toString_utf8 = (\<lambda>b. ''  hello world  ''),
      assertBinaryData = host_assertBinaryData,
      getBinaryDataBuffer = (\<lambda>it i p. Inr [37, 80, 68, 70]),
      continueOnFail = True\<rparr>"

definition demo_params :: params where
  "demo_params =
     \<lparr>param_binaryProperty = ''data'', param_operation = ''auto'',
      param_ocrLanguage = ''fra'', param_preprocess = True\<rparr>"

definition demo_item :: "string option \<Rightarrow> string option \<Rightarrow> string \<Rightarrow> item" where
  "demo_item name mime strategy =
     \<lparr>binary = Some [(''data'', \<lparr>data_fileName = name, data_mimeType = mime\<rparr>)],
      param_pdfStrategy = strategy, param_pdfRenderScale = 2, param_minTextThreshold = 50\<rparr>"

subsection \<open>Reading the call log\<close>

fun is_create_call :: "event \<Rightarrow> bool" where
  "is_create_call (CreateWorker l ok) = True"
| "is_create_call ev = False"

fun is_created :: "event \<Rightarrow> bool" where
  \<comment> \<open>a call of the engine factory that returned a handle\<close>
  "is_created (CreateWorker l ok) = ok"
| "is_created ev = False"

definition engine_untouched :: "event list \<Rightarrow> bool" where
  \<comment> \<open>no call of the engine factory and no termination\<close>
  "engine_untouched evs = (\<forall>ev \<in> set evs. \<not> is_create_call ev \<and> ev \<noteq> Terminate)"

definition lifecycle_inv :: "Worker option \<Rightarrow> event list \<Rightarrow> Worker option \<Rightarrow> bool" where
  \<comment> \<open>what a stretch of the loop that starts with the handle \<open>w\<close> and ends with \<open>w'\<close>
      may log\<close>
  "lifecycle_inv w tr w' =
     (Terminate \<notin> set tr \<and>
      (case w of
         Some x \<Rightarrow> w' = Some x \<and> engine_untouched tr
       | None \<Rightarrow>
           (case w' of
              None \<Rightarrow> \<forall>ev \<in> set tr. \<not> is_created ev
            | Some x \<Rightarrow>
                (\<exists>pre l post. tr = pre @ CreateWorker l True # post
                   \<and> (\<forall>ev \<in> set pre. \<not> is_created ev) \<and> engine_untouched post))))"

subsection \<open>The batch of the examples\<close>

definition demo_batch :: "item list" where
  "demo_batch =
     [demo_item (Some ''a.txt'') (Some ''text/plain'') ''auto'',
      demo_item (Some ''b.pdf'') (Some ''application/pdf'') ''auto'',
      demo_item (Some ''c.bin'') (Some ''application/x-unknown'') ''auto'']"

definition demo_abort_batch :: "item list" where
  "demo_abort_batch =
     [demo_item (Some ''b.pdf'') (Some ''application/pdf'') ''auto'',
      demo_item (Some ''c.bin'') (Some ''application/x-unknown'') ''auto'',
      demo_item (Some ''d.png'') (Some ''image/png'') ''auto'']"

definition demo_outputs :: "json list" where
  "demo_outputs =
     [\<lparr>json_text = Some ''hello world'', json_error = None,
       json_fileName = ''a.txt'', json_mimeType = ''text/plain'',
       json_fileType = Some (Own Txt), json_pageCount = None, json_confidence = None,
       json_language = None, json_method = Some ''txt''\<rparr>,
      \<lparr>json_text = Some (''PAGE1'' @ [CHR 0x0A, CHR 0x0A] @ ''PAGE2''), json_error = None,
       json_fileName = ''b.pdf'', json_mimeType = ''application/pdf'',
       json_fileType = Some (Own Pdf), json_pageCount = Some 2,
       json_confidence = Some (Num 85), json_language = Some ''fra'',
       json_method = Some ''pdf-ocr''\<rparr>,
      \<lparr>json_text = None,
       json_error = Some ''Unsupported file type: application/x-unknown'',
       json_fileName = ''c.bin'', json_mimeType = ''application/x-unknown'',
       json_fileType = None, json_pageCount = None, json_confidence = None,
       json_language = None, json_method = None\<rparr>]"

section \<open>Properties\<close>

subsection \<open>Strings and lookups\<close>

lemma split_not_empty: "split c s \<noteq> []"
  by (induction s) auto

lemma split_without_separator: "c \<notin> set s \<Longrightarrow> split c s = [s]"
  by (induction s) auto

lemma split_with_separator: "c \<in> set s \<Longrightarrow> tl (split c s) \<noteq> []"
  by (induction s) (auto simp: split_not_empty)

lemma takeWhile_snoc_stop: "\<not> P c \<Longrightarrow> takeWhile P (xs @ [c]) = takeWhile P xs"
  by (induction xs) auto

lemma last_split: "last (split c s) = rev (takeWhile (\<lambda>x. x \<noteq> c) (rev s))"
proof (induction s)
  case Nil
  show ?case by simp
next
  case (Cons x s)
  show ?case
  proof (cases "x = c")
    case True
    then show ?thesis
      using Cons split_not_empty[of c s] by (simp add: takeWhile_snoc_stop)
  next
    case False
    show ?thesis
    proof (cases "c \<in> set s")
      case True
      have "last (split c (x # s)) = last (tl (split c s))"
        using False split_with_separator[OF True] by simp
      also have "\<dots> = last (split c s)"
        using split_with_separator[OF True] by (metis last_tl list.sel(2))
      finally show ?thesis
        using Cons True by (simp add: takeWhile_append1)
    next
      case absent: False
      have whole: "takeWhile (\<lambda>y. y \<noteq> c) (rev (x # s)) = rev (x # s)"
        using absent False by (auto simp: takeWhile_eq_all_conv)
      have "split c (x # s) = [x # s]"
        using absent False by (simp add: split_without_separator)
      then show ?thesis
        unfolding whole by simp
    qed
  qed
qed

lemma pop_split: "pop (split (CHR ''.'') f) = Some (after_last_dot f)"
  by (simp add: pop_def split_not_empty last_split after_last_dot_def)

lemma after_last_dot_dotless:
  assumes "CHR ''.'' \<notin> set f"
  shows "after_last_dot f = f"
proof -
  have "takeWhile (\<lambda>c. c \<noteq> CHR ''.'') (rev f) = rev f"
    using assms by (auto simp: takeWhile_eq_all_conv)
  then have "rev (takeWhile (\<lambda>c. c \<noteq> CHR ''.'') (rev f)) = rev (rev f)"
    by (rule arg_cong)
  then show ?thesis
    unfolding after_last_dot_def by (simp only: rev_rev_ident)
qed

lemma js_get_empty_key_MIME: "js_get MIME_MAP [] = None"
  by (simp add: js_get_def MIME_MAP_def Object_prototype_keys_def)

lemma js_get_empty_key_EXT: "js_get EXT_MAP [] = None"
  by (simp add: js_get_def EXT_MAP_def Object_prototype_keys_def)

lemma js_get_own: "key \<notin> set Object_prototype_keys \<Longrightarrow> js_get obj key = map_option Own (map_of obj key)"
  by (simp add: js_get_def split: option.splits)

lemma js_get_found: "map_of obj key = Some v \<Longrightarrow> js_get obj key = Some (Own v)"
  by (simp add: js_get_def)

lemma toLowerCase_empty: "toLowerCase s = [] \<longleftrightarrow> s = []"
  by (simp add: toLowerCase_def)

text \<open>The two steps of \<open>detectFileType\<close>: the lookup of the MIME type, then the lookup of
  the lowercased text after the last dot of the file name.\<close>

lemma detectFileType_steps:
  "detectFileType mimeType fileName =
     (case (case mimeType of None \<Rightarrow> None | Some m \<Rightarrow> js_get MIME_MAP m) of
        Some v \<Rightarrow> Some v
      | None \<Rightarrow>
          (case fileName of
             None \<Rightarrow> None
           | Some f \<Rightarrow> js_get EXT_MAP (toLowerCase (after_last_dot f))))"
proof -
  have ext: "(if f = [] then None
              else (case map_option toLowerCase (pop (split (CHR ''.'') f)) of
                      None \<Rightarrow> None
                    | Some ext \<Rightarrow> if ext = [] then None else js_get EXT_MAP ext))
             = js_get EXT_MAP (toLowerCase (after_last_dot f))" for f
    by (cases "f = []")
       (simp_all add: pop_split toLowerCase_empty js_get_empty_key_EXT after_last_dot_def
          toLowerCase_def)
  have mime: "(case mimeType of None \<Rightarrow> None
               | Some m \<Rightarrow> if m = [] then None else js_get MIME_MAP m)
              = (case mimeType of None \<Rightarrow> None | Some m \<Rightarrow> js_get MIME_MAP m)"
    by (simp add: js_get_empty_key_MIME split: option.splits)
  show ?thesis
    unfolding detectFileType_def mime ext ..
qed

text \<open>Where no name of a member of \<^verbatim>\<open>Object.prototype\<close> is looked up, the code computes
  the specified detection.\<close>

lemma detectFileType_refines_spec:
  assumes "\<forall>m. mimeType = Some m \<longrightarrow> m \<notin> set Object_prototype_keys"
    and "\<forall>f. fileName = Some f \<longrightarrow> toLowerCase (after_last_dot f) \<notin> set Object_prototype_keys"
  shows "detectFileType mimeType fileName = map_option Own (spec_detect mimeType fileName)"
proof -
  have empty_ext: "map_of EXT_MAP [] = None"
    by (simp add: EXT_MAP_def)
  have empty_mime: "map_of MIME_MAP [] = None"
    by (simp add: MIME_MAP_def)
  have empty_after: "after_last_dot [] = []"
    by (simp add: after_last_dot_def)
  show ?thesis
    using assms
    by (cases mimeType; cases fileName)
       (auto simp: detectFileType_steps spec_detect_def js_get_own empty_ext empty_mime
          empty_after toLowerCase_def split: option.splits)
qed

subsection \<open>C7: detection against the specified algorithm\<close>

text \<open>
  C7. The specification has \<open>detectFileType\<close> return the MIME table's kind when the MIME
  type is in that table, else the extension table's kind of the lowercased text after the
  last dot, else null. The tables are object literals, and the lookup also finds the members
  every object inherits: for the MIME type \<^verbatim>\<open>constructor\<close> and no file name, or for
  the file name \<^verbatim>\<open>report.constructor\<close> and an empty MIME type, the specified result is
  null, while the code returns the inherited member, which is no file kind.
\<close>

theorem detectFileType_inherited_member:
  "detectFileType (Some ''constructor'') None = Some (Inherited ''constructor'')
   \<and> spec_detect (Some ''constructor'') None = None
   \<and> detectFileType (Some []) (Some ''report.constructor'') = Some (Inherited ''constructor'')
   \<and> spec_detect (Some []) (Some ''report.constructor'') = None"
  by code_simp

subsection \<open>C10: file names without a dot\<close>

text \<open>
  C10. For a file name that contains no dot, and a MIME type that is absent or not found,
  \<open>detectFileType\<close> looks the whole lowercased file name up in the extension table; a name
  that is a key of the table yields that key's kind.
\<close>

theorem detectFileType_dotless:
  assumes "CHR ''.'' \<notin> set f"
    and "\<forall>m. mimeType = Some m \<longrightarrow> js_get MIME_MAP m = None"
  shows "detectFileType mimeType (Some f) = js_get EXT_MAP (toLowerCase f)
         \<and> (\<forall>k. map_of EXT_MAP (toLowerCase f) = Some k
                \<longrightarrow> detectFileType mimeType (Some f) = Some (Own k))"
  using assms
  by (cases mimeType) (auto simp: detectFileType_steps after_last_dot_dotless js_get_found)

theorem detectFileType_dotless_witness:
  "CHR ''.'' \<notin> set ''txt''
   \<and> detectFileType None (Some ''txt'') = Some (Own Txt)
   \<and> detectFileType (Some ''application/x-unknown'') (Some ''txt'') = Some (Own Txt)"
proof -
  have dotless: "CHR ''.'' \<notin> set ''txt''"
    by simp
  have key: "map_of EXT_MAP (toLowerCase ''txt'') = Some Txt"
    by (simp add: EXT_MAP_def toLowerCase_def toLowerCase_unit_def)
  have unknown: "\<forall>m. Some ''application/x-unknown'' = Some m \<longrightarrow> js_get MIME_MAP m = None"
    by (simp add: js_get_def MIME_MAP_def Object_prototype_keys_def)
  have absent: "\<forall>m. (None :: string option) = Some m \<longrightarrow> js_get MIME_MAP m = None"
    by simp
  show ?thesis
    using detectFileType_dotless[OF dotless absent] detectFileType_dotless[OF dotless unknown]
      key dotless
    by blast
qed

subsection \<open>Computations and rounding\<close>

lemma bind_eff_Inr: "bind_eff (Inr a, evs) f = (fst (f a), evs @ snd (f a))"
  by (simp add: bind_eff_def split: prod.splits)

lemma bind_eff_Inl: "bind_eff (Inl e, evs) f = (Inl e, evs)"
  by (simp add: bind_eff_def)

lemmas eff_simps = bind_eff_Inr bind_eff_Inl call_def return_eff_def throw_def

lemma Math_round_of_int: "Math_round (of_int k) = k"
  unfolding Math_round_def by linarith

lemma Math_round_numeral: "Math_round (numeral k) = numeral k"
  using Math_round_of_int[of "numeral k"] by simp

text \<open>Rounding a quotient of integers, in integer arithmetic.\<close>

lemma Math_round_quotient:
  assumes "0 < n"
  shows "Math_round (of_int t / of_nat n) = (2 * t + int n) div (2 * int n)"
proof -
  have "(of_int t :: rat) / of_nat n + 1 / 2 = of_int (2 * t + int n) / of_int (2 * int n)"
    using assms by (simp add: field_simps)
  then show ?thesis
    unfolding Math_round_def by (simp only: floor_divide_of_int_eq)
qed

subsection \<open>C1: the short-circuit of the strategy auto\<close>

text \<open>
  C1. Under the strategy \<^verbatim>\<open>auto\<close>, when the text layer is read and its trimmed text is at
  least \<open>minTextThreshold\<close> long, \<open>extractFromPdf\<close> returns that text with method
  \<^verbatim>\<open>pdf-text\<close> and confidence null. The only collaborators called are the two of the text
  layer: no page is rasterised, filtered or recognised, whatever the engine handle.
\<close>

theorem extractFromPdf_short_circuit:
  assumes "getDocumentProxy env buffer = Inr pdf"
    and "extractText env pdf = Inr text"
    and "minTextThreshold \<le> of_nat (length (trim text))"
  shows "extractFromPdf env buffer ''auto'' worker preprocess renderScale minTextThreshold =
           (Inr \<lparr>pdf_text = trim text, pdf_pageCount = numPages pdf, pdf_confidence = None,
                 pdf_method = ''pdf-text''\<rparr>,
            [GetDocumentProxy, ExtractText])"
  using assms by (simp add: extractFromPdf_def eff_simps)

theorem extractFromPdf_short_circuit_witness:
  "(5 :: rat) \<le> of_nat (length (trim ''  hello world ''))
   \<and> extractFromPdf (demo_env ''  hello world '') [37, 80, 68, 70] ''auto''
        (Some (Worker ''fra'')) True 2 5
      = (Inr \<lparr>pdf_text = ''hello world'', pdf_pageCount = 2, pdf_confidence = None,
              pdf_method = ''pdf-text''\<rparr>,
         [GetDocumentProxy, ExtractText])"
proof -
  let ?env = "demo_env ''  hello world ''"
  let ?pdf = "\<lparr>numPages = 2, source = [37, 80, 68, 70]\<rparr>"
  have opened: "getDocumentProxy ?env [37, 80, 68, 70] = Inr ?pdf"
    by (simp add: demo_env_def)
  have layer: "extractText ?env ?pdf = Inr ''  hello world ''"
    by (simp add: demo_env_def)
  have trimmed: "trim ''  hello world '' = ''hello world''"
    by (simp add: trim_def is_whitespace_def)
  have enough: "(5 :: rat) \<le> of_nat (length (trim ''  hello world ''))"
    by (simp add: trimmed)
  show ?thesis
    using extractFromPdf_short_circuit[OF opened layer enough, of "Some (Worker ''fra'')" True 2]
      enough
    by (simp add: trimmed)
qed

subsection \<open>C9: neither short-circuit nor OCR\<close>

text \<open>
  C9. With the strategy \<^verbatim>\<open>text\<close> and a text shorter than the threshold, or with OCR
  requested (\<^verbatim>\<open>auto\<close> after a short text, or \<^verbatim>\<open>ocr\<close>) and a null engine handle,
  \<open>extractFromPdf\<close> returns the text-layer result obtained so far with confidence null and
  method \<^verbatim>\<open>pdf-text\<close>. Under \<^verbatim>\<open>ocr\<close> nothing was read: the text is empty and the page
  count is 0.
\<close>

theorem extractFromPdf_text_layer_only:
  "((strategy = ''text'' \<or> strategy = ''auto'' \<and> worker = None)
      \<and> getDocumentProxy env buffer = Inr pdf \<and> extractText env pdf = Inr text
      \<and> of_nat (length (trim text)) < minTextThreshold
    \<longrightarrow> extractFromPdf env buffer strategy worker preprocess renderScale minTextThreshold =
          (Inr \<lparr>pdf_text = trim text, pdf_pageCount = numPages pdf, pdf_confidence = None,
                pdf_method = ''pdf-text''\<rparr>,
           [GetDocumentProxy, ExtractText]))
   \<and> extractFromPdf env buffer ''ocr'' None preprocess renderScale minTextThreshold =
       (Inr \<lparr>pdf_text = [], pdf_pageCount = 0, pdf_confidence = None,
             pdf_method = ''pdf-text''\<rparr>, [])"
  by (simp add: extractFromPdf_def eff_simps)

theorem extractFromPdf_text_layer_only_witness:
  "extractFromPdf (demo_env ''short'') [37, 80, 68, 70] ''text'' (Some (Worker ''fra'')) True 2 50 =
     (Inr \<lparr>pdf_text = ''short'', pdf_pageCount = 2, pdf_confidence = None,
           pdf_method = ''pdf-text''\<rparr>,
      [GetDocumentProxy, ExtractText])
   \<and> extractFromPdf (demo_env ''short'') [37, 80, 68, 70] ''auto'' None True 2 50 =
     (Inr \<lparr>pdf_text = ''short'', pdf_pageCount = 2, pdf_confidence = None,
           pdf_method = ''pdf-text''\<rparr>,
      [GetDocumentProxy, ExtractText])
   \<and> extractFromPdf (demo_env ''short'') [37, 80, 68, 70] ''ocr'' None True 2 50 =
     (Inr \<lparr>pdf_text = [], pdf_pageCount = 0, pdf_confidence = None,
           pdf_method = ''pdf-text''\<rparr>, [])"
proof -
  let ?env = "demo_env ''short''"
  let ?pdf = "\<lparr>numPages = 2, source = [37, 80, 68, 70]\<rparr>"
  have opened: "getDocumentProxy ?env [37, 80, 68, 70] = Inr ?pdf"
    by (simp add: demo_env_def)
  have layer: "extractText ?env ?pdf = Inr ''short''"
    by (simp add: demo_env_def)
  have trimmed: "trim ''short'' = ''short''"
    by (simp add: trim_def is_whitespace_def)
  have short: "of_nat (length (trim ''short'')) < (50 :: rat)"
    by (simp add: trimmed)
  show ?thesis
    using extractFromPdf_text_layer_only[of "''text''" "Some (Worker ''fra'')" ?env
        "[37, 80, 68, 70]" ?pdf "''short''" 50 True 2]
      extractFromPdf_text_layer_only[of "''auto''" None ?env
        "[37, 80, 68, 70]" ?pdf "''short''" 50 True 2]
      opened layer short
    by (simp add: trimmed)
qed

subsection \<open>C5: the OCR path on a non-empty image sequence\<close>

lemma extractFromImage_ok:
  assumes "(if preprocess then sharp env img = Inr input else input = img)"
    and "recognize env w input = Inr (raw, score)"
  shows "extractFromImage env img w preprocess =
           (Inr \<lparr>img_text = trim raw, img_confidence = Some (Math_round score)\<rparr>,
            if preprocess then [Sharp, Recognize] else [Recognize])"
  using assms by (cases preprocess) (simp_all add: extractFromImage_def eff_simps)

lemma ocr_pages_ok:
  assumes "\<forall>img \<in> set images. \<exists>input.
             (if preprocess then sharp env img = Inr input else input = img)
             \<and> recognize env w input = Inr (raw img, score img)"
  shows "ocr_pages env w preprocess images texts totalConfidence =
           (Inr (texts @ map (\<lambda>img. trim (raw img)) images,
                 totalConfidence + sum_list (map (\<lambda>img. Math_round (score img)) images)),
            concat (map (\<lambda>img. if preprocess then [Sharp, Recognize] else [Recognize]) images))"
  using assms
proof (induction images arbitrary: texts totalConfidence)
  case Nil
  show ?case by (simp add: eff_simps)
next
  case (Cons img imgs)
  from Cons.prems obtain input where
    "(if preprocess then sharp env img = Inr input else input = img)"
    "recognize env w input = Inr (raw img, score img)"
    by auto
  then have one: "extractFromImage env img w preprocess =
      (Inr \<lparr>img_text = trim (raw img), img_confidence = Some (Math_round (score img))\<rparr>,
       if preprocess then [Sharp, Recognize] else [Recognize])"
    by (rule extractFromImage_ok)
  have rest: "\<forall>img \<in> set imgs. \<exists>input.
             (if preprocess then sharp env img = Inr input else input = img)
             \<and> recognize env w input = Inr (raw img, score img)"
    using Cons.prems by simp
  show ?case
    by (simp add: one bind_eff_Inr Cons.IH[OF rest])
qed

text \<open>
  C5. Let the OCR path run: the strategy is \<^verbatim>\<open>ocr\<close>, or \<^verbatim>\<open>auto\<close> with a text layer
  shorter than the threshold, and there is an engine handle. Let the rasteriser return at
  least one page image and let every page be recognised, page \<open>img\<close> as the raw text
  \<open>raw img\<close> with the score \<open>score img\<close>. Then the text is the trimmed page texts joined by
  two line feeds, the page count is the number of page images, the confidence is the
  rounded mean of the rounded page scores and the method is \<^verbatim>\<open>pdf-ocr\<close>; every page is
  recognised once, in page order.
\<close>

theorem extractFromPdf_ocr:
  assumes strategy: "strategy = ''ocr'' \<or>
       (strategy = ''auto'' \<and> getDocumentProxy env buffer = Inr pdf
        \<and> extractText env pdf = Inr text
        \<and> of_nat (length (trim text)) < minTextThreshold)"
    and raster: "pdfToPng env buffer renderScale = Inr pages"
    and images: "images = map the (filter (\<lambda>c. c \<noteq> None) (map content pages))"
    and nonempty: "images \<noteq> []"
    and pages: "\<forall>img \<in> set images. \<exists>input.
             (if preprocess then sharp env img = Inr input else input = img)
             \<and> recognize env w input = Inr (raw img, score img)"
  shows "extractFromPdf env buffer strategy (Some w) preprocess renderScale minTextThreshold =
           (Inr \<lparr>pdf_text = join [CHR 0x0A, CHR 0x0A] (map (\<lambda>img. trim (raw img)) images),
                 pdf_pageCount = length images,
                 pdf_confidence =
                   Some (Num (Math_round
                     (of_int (sum_list (map (\<lambda>img. Math_round (score img)) images))
                        / of_nat (length images)))),
                 pdf_method = ''pdf-ocr''\<rparr>,
            (if strategy = ''auto'' then [GetDocumentProxy, ExtractText] else [])
              @ PdfToPng
              # concat (map (\<lambda>img. if preprocess then [Sharp, Recognize] else [Recognize]) images))"
proof -
  have rasterised: "pdfToImages env buffer renderScale = (Inr images, [PdfToPng])"
    by (simp add: pdfToImages_def raster images eff_simps)
  have loop: "ocr_pages env w preprocess images [] 0 =
           (Inr (map (\<lambda>img. trim (raw img)) images,
                 sum_list (map (\<lambda>img. Math_round (score img)) images)),
            concat (map (\<lambda>img. if preprocess then [Sharp, Recognize] else [Recognize]) images))"
    using ocr_pages_ok[OF pages, of "[]" 0] by simp
  have quotient: "round_quotient t (length images) =
                    Num (Math_round (of_int t / of_nat (length images)))" for t
    using nonempty by (simp add: round_quotient_def)
  from strategy show ?thesis
  proof
    assume "strategy = ''ocr''"
    then show ?thesis
      by (simp add: extractFromPdf_def rasterised loop quotient eff_simps)
  next
    assume "strategy = ''auto'' \<and> getDocumentProxy env buffer = Inr pdf
        \<and> extractText env pdf = Inr text
        \<and> of_nat (length (trim text)) < minTextThreshold"
    then show ?thesis
      by (simp add: extractFromPdf_def rasterised loop quotient eff_simps)
  qed
qed

theorem extractFromPdf_ocr_witness:
  "rat_of_nat (length (trim ''short'')) < 50
   \<and> extractFromPdf (demo_env ''short'') [37, 80, 68, 70] ''auto'' (Some (Worker ''fra'')) True 2 50 =
       (Inr \<lparr>pdf_text = ''PAGE1'' @ [CHR 0x0A, CHR 0x0A] @ ''PAGE2'', pdf_pageCount = 2,
              pdf_confidence = Some (Num 85), pdf_method = ''pdf-ocr''\<rparr>,
        [GetDocumentProxy, ExtractText, PdfToPng, Sharp, Recognize, Sharp, Recognize])"
proof -
  let ?env = "demo_env ''short''"
  let ?buf = "[37, 80, 68, 70] :: buffer"
  let ?raw = "\<lambda>img :: buffer. if img = [1] then ''PAGE1 '' else ''PAGE2''"
  let ?score = "\<lambda>img :: buffer. if img = [1] then 90 else (80 :: rat)"
  have short: "trim ''short'' = ''short''"
    by (simp add: trim_def is_whitespace_def)
  have strategy: "''auto'' = ''ocr'' \<or>
       (''auto'' = ''auto'' \<and> getDocumentProxy ?env ?buf = Inr \<lparr>numPages = 2, source = ?buf\<rparr>
        \<and> extractText ?env \<lparr>numPages = 2, source = ?buf\<rparr> = Inr ''short''
        \<and> of_nat (length (trim ''short'')) < (50 :: rat))"
    by (simp add: demo_env_def short)
  have raster: "pdfToPng ?env ?buf 2 = Inr [\<lparr>content = Some [1]\<rparr>, \<lparr>content = Some [2]\<rparr>]"
    by (simp add: demo_env_def)
  have images: "[[1], [2 :: 8 word]] =
      map the (filter (\<lambda>c. c \<noteq> None)
        (map content [\<lparr>content = Some [1]\<rparr>, \<lparr>content = Some [2]\<rparr>]))"
    by simp
  have nonempty: "[[1], [2 :: 8 word]] \<noteq> []"
    by simp
  have pages: "\<forall>img \<in> set [[1], [2 :: 8 word]]. \<exists>input.
             (if True then sharp ?env img = Inr input else input = img)
             \<and> recognize ?env (Worker ''fra'') input = Inr (?raw img, ?score img)"
    by (simp add: demo_env_def)
  have trims: "trim ''PAGE1 '' = ''PAGE1''" "trim ''PAGE2'' = ''PAGE2''"
    by (simp_all add: trim_def is_whitespace_def)
  show ?thesis
    using extractFromPdf_ocr[OF strategy raster images nonempty pages]
    by (simp add: short trims Math_round_numeral)
qed

subsection \<open>C2: the OCR path on an empty image sequence\<close>

text \<open>
  C2. The specification wants a PDF whose rasterisation yields no image to give zero pages,
  empty text and a null confidence, with no division by zero. The code divides the total
  0 by the length 0: under the strategy \<^verbatim>\<open>ocr\<close>, with an engine handle and a rasteriser
  that returns no page, the result has zero pages and empty text, and its confidence is
  NaN, not null.
\<close>

theorem extractFromPdf_zero_pages:
  "extractFromPdf ((demo_env ''short'')\<lparr>pdfToPng := (\<lambda>b s. Inr [])\<rparr>) [37, 80, 68, 70] ''ocr''
     (Some (Worker ''fra'')) True 2 50 =
   (Inr \<lparr>pdf_text = [], pdf_pageCount = 0, pdf_confidence = Some NaN,
         pdf_method = ''pdf-ocr''\<rparr>, [PdfToPng])"
  by (simp add: extractFromPdf_def pdfToImages_def eff_simps demo_env_def round_quotient_def)

subsection \<open>The example batches, evaluated\<close>

lemma demo_run:
  "execute (demo_env ''short'') demo_params demo_batch =
     (Inr demo_outputs,
      [CreateWorker ''fra'' True, GetDocumentProxy, ExtractText, PdfToPng,
       Sharp, Recognize, Sharp, Recognize, Terminate])"
  by code_simp

lemma demo_abort_run:
  "execute ((demo_env ''short'')\<lparr>continueOnFail := False\<rparr>) demo_params
      demo_abort_batch =
     (Inl (NodeOperationError ''Unsupported file type: application/x-unknown'' 1),
      [CreateWorker ''fra'' True, GetDocumentProxy, ExtractText, PdfToPng,
       Sharp, Recognize, Sharp, Recognize, Terminate])"
  by code_simp

subsection \<open>C6: the engine handle in the call log\<close>

lemma engine_untouched_Nil: "engine_untouched []"
  by (simp add: engine_untouched_def)

lemma engine_untouched_append:
  "engine_untouched (xs @ ys) \<longleftrightarrow> engine_untouched xs \<and> engine_untouched ys"
  by (auto simp: engine_untouched_def)

lemma bind_eff_untouched:
  assumes "engine_untouched (snd m)" and "\<And>a. engine_untouched (snd (f a))"
  shows "engine_untouched (snd (bind_eff m f))"
proof (cases m)
  case (Pair r evs)
  then show ?thesis
    using assms by (cases r) (simp_all add: eff_simps engine_untouched_append)
qed

lemma call_untouched: "\<not> is_create_call ev \<Longrightarrow> ev \<noteq> Terminate \<Longrightarrow> engine_untouched (snd (call ev r))"
  by (simp add: call_def engine_untouched_def)

lemma return_untouched: "engine_untouched (snd (return_eff a))"
  by (simp add: return_eff_def engine_untouched_def)

lemma throw_untouched: "engine_untouched (snd (throw e))"
  by (simp add: throw_def engine_untouched_def)

lemmas untouched_intros = bind_eff_untouched call_untouched return_untouched throw_untouched

lemma extractFromImage_untouched: "engine_untouched (snd (extractFromImage env buffer w preprocess))"
  unfolding extractFromImage_def
  by (intro untouched_intros) (auto intro!: untouched_intros split: prod.splits)

lemma ocr_pages_untouched: "engine_untouched (snd (ocr_pages env w preprocess images texts totalConfidence))"
  by (induction images arbitrary: texts totalConfidence)
     (auto intro!: untouched_intros extractFromImage_untouched)

lemma pdfToImages_untouched: "engine_untouched (snd (pdfToImages env buffer scale))"
  unfolding pdfToImages_def by (auto intro!: untouched_intros)

lemma extractFromPdf_untouched:
  "engine_untouched (snd (extractFromPdf env buffer strategy worker preprocess renderScale minTextThreshold))"
  unfolding extractFromPdf_def Let_def
  by (auto intro!: untouched_intros ocr_pages_untouched pdfToImages_untouched
      split: prod.splits option.splits)

lemma extract_item_untouched: "engine_untouched (snd (extract_item env ps it buffer ft worker))"
  unfolding extract_item_def extractFromDocx_def extractFromDoc_def
  by (auto intro!: untouched_intros extractFromImage_untouched extractFromPdf_untouched
      split: property.splits FileType.splits option.splits)

lemma resolve_item_no_events: "snd (resolve_item env ps i it) = []"
  by (simp add: resolve_item_def Let_def eff_simps split: sum.splits option.splits)

lemma is_created_call: "is_created ev \<Longrightarrow> is_create_call ev"
  by (cases ev) auto

lemma untouched_no_created: "engine_untouched evs \<Longrightarrow> ev \<in> set evs \<Longrightarrow> \<not> is_created ev"
  using is_created_call by (auto simp: engine_untouched_def)

lemma untouched_no_Terminate: "engine_untouched evs \<Longrightarrow> Terminate \<notin> set evs"
  by (auto simp: engine_untouched_def)

lemma lifecycle_inv_refl: "lifecycle_inv w [] w"
  by (cases w) (simp_all add: lifecycle_inv_def engine_untouched_def)

lemma lifecycle_inv_trans:
  assumes "lifecycle_inv w a w1" and "lifecycle_inv w1 b w2"
  shows "lifecycle_inv w (a @ b) w2"
proof (cases w)
  case (Some x)
  then show ?thesis
    using assms by (auto simp: lifecycle_inv_def engine_untouched_append)
next
  case None
  show ?thesis
  proof (cases w1)
    case w1: None
    show ?thesis
    proof (cases w2)
      case None
      then show ?thesis
        using assms \<open>w = None\<close> w1 by (auto simp: lifecycle_inv_def)
    next
      case (Some y)
      then obtain pre l post where b: "b = pre @ CreateWorker l True # post"
        "\<forall>ev \<in> set pre. \<not> is_created ev" "engine_untouched post"
        using assms(2) w1 by (auto simp: lifecycle_inv_def)
      have "a @ b = (a @ pre) @ CreateWorker l True # post"
        using b(1) by simp
      moreover have "\<forall>ev \<in> set (a @ pre). \<not> is_created ev"
        using assms(1) \<open>w = None\<close> w1 b(2) by (auto simp: lifecycle_inv_def)
      ultimately have "\<exists>pre' l' post'. a @ b = pre' @ CreateWorker l' True # post'
          \<and> (\<forall>ev \<in> set pre'. \<not> is_created ev) \<and> engine_untouched post'"
        using b(3) by blast
      moreover have "Terminate \<notin> set (a @ b)"
        using assms by (auto simp: lifecycle_inv_def)
      ultimately show ?thesis
        using \<open>w = None\<close> Some by (simp add: lifecycle_inv_def)
    qed
  next
    case (Some x)
    then obtain pre l post where a: "a = pre @ CreateWorker l True # post"
      "\<forall>ev \<in> set pre. \<not> is_created ev" "engine_untouched post"
      using assms(1) \<open>w = None\<close> by (auto simp: lifecycle_inv_def)
    have b: "w2 = Some x" "engine_untouched b"
      using assms(2) Some by (auto simp: lifecycle_inv_def)
    have "a @ b = pre @ CreateWorker l True # (post @ b)"
      using a(1) by simp
    moreover have "engine_untouched (post @ b)"
      using a(3) b(2) by (simp add: engine_untouched_append)
    ultimately have "\<exists>pre' l' post'. a @ b = pre' @ CreateWorker l' True # post'
        \<and> (\<forall>ev \<in> set pre'. \<not> is_created ev) \<and> engine_untouched post'"
      using a(2) by blast
    moreover have "Terminate \<notin> set (a @ b)"
      using assms by (auto simp: lifecycle_inv_def)
    ultimately show ?thesis
      using \<open>w = None\<close> b(1) by (simp add: lifecycle_inv_def)
  qed
qed

lemma init_worker_cases:
  "init_worker env l needsOcr w =
     (if needsOcr \<and> w = None
      then (case createWorker env l of
              Inl e \<Rightarrow> (Inl e, [CreateWorker l False])
            | Inr x \<Rightarrow> (Inr (Some x), [CreateWorker l True]))
      else (Inr w, []))"
  by (simp add: init_worker_def eff_simps)

lemma process_item_lifecycle:
  assumes "process_item env ps i it w = (r, w', evs)"
  shows "lifecycle_inv w evs w'"
proof -
  obtain r1 where res: "resolve_item env ps i it = (r1, [])"
    using resolve_item_no_events[of env ps i it] by (cases "resolve_item env ps i it") simp
  show ?thesis
  proof (cases r1)
    case (Inl e)
    have "fst (snd (process_item env ps i it w)) = w
          \<and> snd (snd (process_item env ps i it w)) = []"
      by (simp add: process_item_def res Inl)
    then have "w' = w \<and> evs = []"
      using assms by simp
    then show ?thesis
      by (simp add: lifecycle_inv_refl)
  next
    case (Inr t)
    obtain buffer fileName mimeType ft where t: "t = (buffer, fileName, mimeType, ft)"
      by (cases t) auto
    let ?need = "needsOcr_of ft it"
    obtain r3 evs3 where ex: "extract_item env ps it buffer ft w = (r3, evs3)"
      by (cases "extract_item env ps it buffer ft w") auto
    have q3: "engine_untouched evs3"
      using extract_item_untouched[of env ps it buffer ft w] ex by simp
    show ?thesis
    proof (cases "?need \<and> w = None")
      case False
      then have iw: "init_worker env (param_ocrLanguage ps) ?need w = (Inr w, [])"
        by (auto simp: init_worker_cases)
      have "fst (snd (process_item env ps i it w)) = w
            \<and> snd (snd (process_item env ps i it w)) = evs3"
        by (simp add: process_item_def res Inr t iw ex split: sum.splits prod.splits)
      then have "w' = w \<and> evs = evs3"
        using assms by simp
      then show ?thesis
        using q3 untouched_no_created[OF q3] untouched_no_Terminate[OF q3]
        by (cases w) (auto simp: lifecycle_inv_def)
    next
      case True
      show ?thesis
      proof (cases "createWorker env (param_ocrLanguage ps)")
        case (Inl e)
        then have iw: "init_worker env (param_ocrLanguage ps) ?need w
                         = (Inl e, [CreateWorker (param_ocrLanguage ps) False])"
          using True by (simp add: init_worker_cases)
        have "fst (snd (process_item env ps i it w)) = w
            \<and> snd (snd (process_item env ps i it w)) = [CreateWorker (param_ocrLanguage ps) False]"
          by (simp add: process_item_def res \<open>r1 = Inr t\<close> t iw)
        then have "w' = None \<and> evs = [CreateWorker (param_ocrLanguage ps) False]"
          using assms True by simp
        then show ?thesis
          using True by (simp add: lifecycle_inv_def)
      next
        case (Inr x)
        then have iw: "init_worker env (param_ocrLanguage ps) ?need w
                         = (Inr (Some x), [CreateWorker (param_ocrLanguage ps) True])"
          using True by (simp add: init_worker_cases)
        obtain r4 evs4 where ex4: "extract_item env ps it buffer ft (Some x) = (r4, evs4)"
          by (cases "extract_item env ps it buffer ft (Some x)") auto
        have q4: "engine_untouched evs4"
          using extract_item_untouched[of env ps it buffer ft "Some x"] ex4 by simp
        have "fst (snd (process_item env ps i it w)) = Some x
            \<and> snd (snd (process_item env ps i it w))
                = CreateWorker (param_ocrLanguage ps) True # evs4"
          by (simp add: process_item_def res \<open>r1 = Inr t\<close> t iw ex4
              split: sum.splits prod.splits)
        then have out: "w' = Some x" "evs = [] @ CreateWorker (param_ocrLanguage ps) True # evs4"
          using assms by simp_all
        have "\<exists>pre l post. evs = pre @ CreateWorker l True # post
                \<and> (\<forall>ev \<in> set pre. \<not> is_created ev) \<and> engine_untouched post"
          using out(2) q4 by (intro exI[of _ "[]"] exI[of _ "param_ocrLanguage ps"] exI[of _ evs4]) simp
        moreover have "Terminate \<notin> set evs"
          using out(2) untouched_no_Terminate[OF q4] by simp
        ultimately show ?thesis
          using True out(1) unfolding lifecycle_inv_def by simp
      qed
    qed
  qed
qed

lemma run_items_lifecycle:
  "run_items env ps i items w acc = (r, w', tr) \<Longrightarrow> lifecycle_inv w tr w'"
proof (induction items arbitrary: i w acc r w' tr)
  case Nil
  then show ?case by (simp add: lifecycle_inv_refl)
next
  case (Cons it rest)
  obtain r1 w1 evs1 where p: "process_item env ps i it w = (r1, w1, evs1)"
    by (cases "process_item env ps i it w") auto
  have one: "lifecycle_inv w evs1 w1"
    using process_item_lifecycle[OF p] .
  show ?case
  proof (cases "\<exists>e. r1 = Inl e \<and> \<not> continueOnFail env")
    case True
    then have "w' = w1 \<and> tr = evs1"
      using Cons.prems p by auto
    then show ?thesis using one by simp
  next
    case False
    define acc' where "acc' = (case r1 of Inr out \<Rightarrow> acc @ [out] | Inl e \<Rightarrow> acc @ [degraded ps it e])"
    obtain r2 w2 evs2 where rec: "run_items env ps (Suc i) rest w1 acc' = (r2, w2, evs2)"
      by (cases "run_items env ps (Suc i) rest w1 acc'") auto
    have "w' = w2 \<and> tr = evs1 @ evs2"
      using Cons.prems p rec False by (cases r1) (auto simp: acc'_def)
    then show ?thesis
      using lifecycle_inv_trans[OF one Cons.IH[OF rec]] by simp
  qed
qed

lemma filter_untouched:
  assumes "engine_untouched evs"
  shows "filter is_created evs = []" and "filter is_create_call evs = []"
    and "filter (\<lambda>ev. ev = Terminate) evs = []"
  using assms is_created_call by (auto simp: engine_untouched_def filter_empty_conv)

text \<open>
  C6. In the call log of every run of \<open>execute\<close>, whatever its outcome: the engine factory
  returns a handle at most once; \<open>terminate\<close> is called as often as a handle was created,
  so exactly once if there is one and never otherwise; if a handle was created, the
  termination is the last call of the run; and from the creation on the factory is not
  called again, so later items use the handle that exists. The statement holds for a loop
  that completes, for one that continues after caught errors and for one that an error
  aborts, since it constrains the log and not the outcome.
\<close>

theorem execute_engine_lifecycle:
  "(let tr = snd (execute env ps items)
    in length (filter is_created tr) \<le> 1
       \<and> length (filter (\<lambda>ev. ev = Terminate) tr) = length (filter is_created tr)
       \<and> ((\<exists>ev \<in> set tr. is_created ev) \<longrightarrow> last tr = Terminate)
       \<and> length (filter is_create_call (dropWhile (\<lambda>ev. \<not> is_created ev) tr)) \<le> 1)"
proof -
  obtain r w' tr where run: "run_items env ps 0 items None [] = (r, w', tr)"
    by (cases "run_items env ps 0 items None []") auto
  have inv: "lifecycle_inv None tr w'"
    using run_items_lifecycle[OF run] .
  show ?thesis
  proof (cases w')
    case None
    then have quiet: "\<forall>ev \<in> set tr. \<not> is_created ev" "Terminate \<notin> set tr"
      using inv by (auto simp: lifecycle_inv_def)
    have tr: "snd (execute env ps items) = tr"
      using run None by (simp add: execute_def)
    have none: "filter is_created tr = []" "filter (\<lambda>ev. ev = Terminate) tr = []"
      using quiet by (auto simp: filter_empty_conv)
    have dw: "dropWhile (\<lambda>ev. \<not> is_created ev) tr = []"
      using quiet(1) by simp
    show ?thesis
      unfolding tr Let_def dw none using quiet(1) by simp
  next
    case (Some x)
    then obtain pre l post where shape: "tr = pre @ CreateWorker l True # post"
      "\<forall>ev \<in> set pre. \<not> is_created ev" "engine_untouched post" "Terminate \<notin> set tr"
      using inv by (auto simp: lifecycle_inv_def)
    have tr: "snd (execute env ps items) = pre @ CreateWorker l True # post @ [Terminate]"
      using run Some shape(1) by (simp add: execute_def split: option.splits)
    have pre: "filter is_created pre = []" "filter (\<lambda>ev. ev = Terminate) pre = []"
      using shape(1,2,4) by (auto simp: filter_empty_conv)
    have dw: "dropWhile (\<lambda>ev. \<not> is_created ev) (pre @ CreateWorker l True # post @ [Terminate])
               = CreateWorker l True # post @ [Terminate]"
      using shape(2) by (simp add: dropWhile_append3)
    show ?thesis
      unfolding tr Let_def dw
      by (simp add: pre filter_untouched[OF shape(3)])
  qed
qed

theorem execute_engine_lifecycle_witness:
  "snd (execute ((demo_env ''short'')\<lparr>continueOnFail := False\<rparr>) demo_params
          demo_abort_batch)
     = [CreateWorker ''fra'' True, GetDocumentProxy, ExtractText, PdfToPng,
        Sharp, Recognize, Sharp, Recognize, Terminate]
   \<and> (let tr = snd (execute ((demo_env ''short'')\<lparr>continueOnFail := False\<rparr>) demo_params
                     demo_abort_batch)
      in (\<exists>ev \<in> set tr. is_created ev) \<and> last tr = Terminate
         \<and> length (filter is_created tr) = 1
         \<and> length (filter (\<lambda>ev. ev = Terminate) tr) = 1)"
  using execute_engine_lifecycle[of "(demo_env ''short'')\<lparr>continueOnFail := False\<rparr>" demo_params
      "demo_abort_batch"]
  by (simp add: demo_abort_run Let_def)

subsection \<open>Results of an item and of the batch\<close>

lemma bind_eff_InrE:
  assumes "bind_eff m f = (Inr b, evs)"
  obtains a evs1 evs2 where "m = (Inr a, evs1)" and "f a = (Inr b, evs2)" and "evs = evs1 @ evs2"
proof (cases m)
  case (Pair r evs1)
  show ?thesis
  proof (cases r)
    case (Inl e)
    then show ?thesis using assms Pair by (simp add: bind_eff_Inl)
  next
    case (Inr a)
    then have "f a = (Inr b, snd (f a))" "evs = evs1 @ snd (f a)"
      using assms Pair by (simp_all add: bind_eff_Inr prod_eq_iff)
    then show ?thesis using that Pair Inr by blast
  qed
qed

lemma return_eff_eq: "return_eff a = (Inr b, evs) \<longleftrightarrow> a = b \<and> evs = []"
  by (auto simp: return_eff_def)

lemma throw_neq: "throw e \<noteq> (Inr b, evs)"
  by (simp add: throw_def)

lemma extractFromImage_result:
  assumes "extractFromImage env buffer w preprocess = (Inr r, evs)"
  shows "img_confidence r \<noteq> None"
  using assms unfolding extractFromImage_def
  by (auto elim!: bind_eff_InrE simp: return_eff_eq split: prod.splits)

lemma extractFromPdf_result:
  assumes "extractFromPdf env buffer strategy worker preprocess renderScale minTextThreshold = (Inr r, evs)"
  shows "(pdf_method r = ''pdf-text'' \<and> pdf_confidence r = None)
         \<or> (pdf_method r = ''pdf-ocr'' \<and> pdf_confidence r \<noteq> None)"
  using assms unfolding extractFromPdf_def Let_def
  by (auto elim!: bind_eff_InrE simp: return_eff_eq split: prod.splits if_splits option.splits)

lemma extract_item_result:
  assumes "extract_item env ps it buffer ft worker = (Inr (text, pageCount, confidence, method), evs)"
  shows "(confidence \<noteq> None \<longleftrightarrow> method = ''ocr'' \<or> method = ''pdf-ocr'')
         \<and> (pageCount \<noteq> None \<longleftrightarrow> startsWith method ''pdf'')"
proof (cases ft)
  case (Inherited k)
  then show ?thesis
    using assms by (auto simp: extract_item_def return_eff_eq startsWith_def)
next
  case (Own t)
  show ?thesis
  proof (cases t)
    case Image
    then show ?thesis
      using assms Own extractFromImage_result
      by (auto simp: extract_item_def return_eff_eq throw_neq startsWith_def
          elim!: bind_eff_InrE split: option.splits)
  next
    case Pdf
    then obtain r evs' where r: "extractFromPdf env buffer (param_pdfStrategy it) worker
            (param_preprocess ps) (param_pdfRenderScale it) (param_minTextThreshold it) = (Inr r, evs')"
      and out: "pageCount = Some (pdf_pageCount r)" "confidence = pdf_confidence r"
        "method = pdf_method r"
      using assms Own
      by (auto simp: extract_item_def return_eff_eq elim!: bind_eff_InrE)
    show ?thesis
      using extractFromPdf_result[OF r] out by (auto simp: startsWith_def)
  next
    case Docx
    then show ?thesis
      using assms Own
      by (auto simp: extract_item_def return_eff_eq startsWith_def elim!: bind_eff_InrE)
  next
    case Doc
    then show ?thesis
      using assms Own
      by (auto simp: extract_item_def return_eff_eq startsWith_def elim!: bind_eff_InrE)
  next
    case Txt
    then show ?thesis
      using assms Own
      by (auto simp: extract_item_def return_eff_eq startsWith_def)
  qed
qed

lemma process_item_InrE:
  assumes "process_item env ps i it w = (Inr out, w', evs)"
  obtains buffer fileName mimeType ft body pageCount confidence tag evs0 evs2 evs3 where
    "resolve_item env ps i it = (Inr (buffer, fileName, mimeType, ft), evs0)"
    and "init_worker env (param_ocrLanguage ps) (needsOcr_of ft it) w = (Inr w', evs2)"
    and "extract_item env ps it buffer ft w' = (Inr (body, pageCount, confidence, tag), evs3)"
    and "out = \<lparr>json_text = Some body, json_error = None, json_fileName = fileName,
                 json_mimeType = mimeType, json_fileType = Some ft, json_pageCount = pageCount,
                 json_confidence = confidence,
                 json_language = (if needsOcr_of ft it then Some (param_ocrLanguage ps) else None),
                 json_method = Some tag\<rparr>"
  using assms unfolding process_item_def Let_def
  by (auto split: prod.splits sum.splits)

lemma degraded_fields:
  "json_text (degraded ps it e) = None \<and> json_error (degraded ps it e) = Some (message e)
   \<and> json_fileType (degraded ps it e) = None \<and> json_pageCount (degraded ps it e) = None
   \<and> json_confidence (degraded ps it e) = None \<and> json_language (degraded ps it e) = None
   \<and> json_method (degraded ps it e) = None"
  by (simp add: degraded_def Let_def)

lemma run_items_outputs:
  assumes "run_items env ps i items w acc = (Inr outs, w', tr)"
  shows "length outs = length acc + length items \<and> take (length acc) outs = acc
         \<and> (\<forall>k < length items.
               case fst (process_item env ps (i + k) (items ! k)
                           (fst (snd (run_items env ps i (take k items) w acc)))) of
                 Inr out \<Rightarrow> outs ! (length acc + k) = out
               | Inl e \<Rightarrow> continueOnFail env
                          \<and> outs ! (length acc + k) = degraded ps (items ! k) e)"
  using assms
proof (induction items arbitrary: i w acc tr)
  case Nil
  then show ?case by simp
next
  case (Cons it rest)
  obtain r1 w1 evs1 where p: "process_item env ps i it w = (r1, w1, evs1)"
    by (cases "process_item env ps i it w") auto
  define x where "x = (case r1 of Inr out \<Rightarrow> out | Inl e \<Rightarrow> degraded ps it e)"
  have cont: "\<And>e. r1 = Inl e \<Longrightarrow> continueOnFail env"
    using Cons.prems p by (auto split: if_splits)
  obtain tr2 where rec: "run_items env ps (Suc i) rest w1 (acc @ [x]) = (Inr outs, w', tr2)"
    using Cons.prems p cont by (cases r1) (auto simp: x_def split: prod.splits if_splits)
  note IH = Cons.IH[OF rec]
  have len: "length outs = length acc + length (it # rest)"
    using IH by simp
  have tk: "take (Suc (length acc)) outs = acc @ [x]"
    using IH by simp
  have acc: "take (length acc) outs = acc"
    using tk by (metis append_eq_conv_conj length_append_singleton take_all_iff take_take min.absorb1 le_add2 plus_1_eq_Suc)
  have at: "outs ! length acc = x"
    using tk len by (metis lessI nth_append_length nth_take)
  have step: "fst (snd (run_items env ps i (take (Suc j) (it # rest)) w acc))
              = fst (snd (run_items env ps (Suc i) (take j rest) w1 (acc @ [x])))" for j
    using p cont by (cases r1) (auto simp: x_def split: prod.splits)
  have each: "case fst (process_item env ps (i + k) ((it # rest) ! k)
                           (fst (snd (run_items env ps i (take k (it # rest)) w acc)))) of
                 Inr out \<Rightarrow> outs ! (length acc + k) = out
               | Inl e \<Rightarrow> continueOnFail env
                          \<and> outs ! (length acc + k) = degraded ps ((it # rest) ! k) e"
    if k: "k < length (it # rest)" for k
  proof (cases k)
    case 0
    then show ?thesis
      using p at cont by (cases r1) (auto simp: x_def)
  next
    case (Suc j)
    then have "j < length rest" using k by simp
    then show ?thesis
      using IH Suc step[of j] by (auto split: sum.splits)
  qed
  show ?case
    using len acc each by blast
qed

lemma execute_InrD:
  assumes "fst (execute env ps items) = Inr outs"
  shows "\<exists>w' tr. run_items env ps 0 items None [] = (Inr outs, w', tr)"
  using assms unfolding execute_def
  by (auto split: prod.splits option.splits)

lemma execute_outputs:
  assumes "fst (execute env ps items) = Inr outs"
  shows "length outs = length items"
    and "k < length items \<Longrightarrow>
         (case fst (process_item env ps k (items ! k) (worker_at env ps items k)) of
            Inr out \<Rightarrow> outs ! k = out
          | Inl e \<Rightarrow> continueOnFail env \<and> outs ! k = degraded ps (items ! k) e)"
proof -
  obtain w' tr where run: "run_items env ps 0 items None [] = (Inr outs, w', tr)"
    using execute_InrD[OF assms] by blast
  show "length outs = length items"
    using run_items_outputs[OF run] by simp
  show "(case fst (process_item env ps k (items ! k) (worker_at env ps items k)) of
            Inr out \<Rightarrow> outs ! k = out
          | Inl e \<Rightarrow> continueOnFail env \<and> outs ! k = degraded ps (items ! k) e)"
    if "k < length items"
    using run_items_outputs[OF run] that by (auto simp: worker_at_def split: sum.splits)
qed

lemma extractFromPdf_ocr_method:
  assumes "extractFromPdf env buffer strategy worker preprocess renderScale minTextThreshold = (Inr r, evs)"
    and "pdf_method r = ''pdf-ocr''"
  shows "strategy = ''auto'' \<or> strategy = ''ocr''"
  using assms unfolding extractFromPdf_def Let_def
  by (auto elim!: bind_eff_InrE simp: return_eff_eq split: prod.splits if_splits option.splits)

lemma extract_item_method:
  assumes "extract_item env ps it buffer ft worker = (Inr (body, pageCount, confidence, method), evs)"
  shows "(method = ''ocr'' \<longleftrightarrow> ft = Own Image)
         \<and> (method = ''pdf-ocr'' \<or> method = ''pdf-text'' \<longleftrightarrow> ft = Own Pdf)
         \<and> (method = ''pdf-ocr'' \<longrightarrow> param_pdfStrategy it \<noteq> ''text'')"
proof (cases ft)
  case (Inherited k)
  then show ?thesis
    using assms by (auto simp: extract_item_def return_eff_eq)
next
  case (Own t)
  show ?thesis
  proof (cases t)
    case Image
    then show ?thesis
      using assms Own
      by (auto simp: extract_item_def return_eff_eq throw_neq
          elim!: bind_eff_InrE split: option.splits)
  next
    case Pdf
    then obtain r evs' where r: "extractFromPdf env buffer (param_pdfStrategy it) worker
            (param_preprocess ps) (param_pdfRenderScale it) (param_minTextThreshold it) = (Inr r, evs')"
      and out: "method = pdf_method r"
      using assms Own
      by (auto simp: extract_item_def return_eff_eq elim!: bind_eff_InrE)
    show ?thesis
      using extractFromPdf_result[OF r] extractFromPdf_ocr_method[OF r] out Own Pdf by auto
  next
    case Docx
    then show ?thesis
      using assms Own
      by (auto simp: extract_item_def return_eff_eq elim!: bind_eff_InrE)
  next
    case Doc
    then show ?thesis
      using assms Own
      by (auto simp: extract_item_def return_eff_eq elim!: bind_eff_InrE)
  next
    case Txt
    then show ?thesis
      using assms Own
      by (auto simp: extract_item_def return_eff_eq)
  qed
qed

lemma run_items_continue:
  assumes "continueOnFail env"
  shows "\<exists>outs w' tr. run_items env ps i items w acc = (Inr outs, w', tr)"
proof (induction items arbitrary: i w acc)
  case Nil
  show ?case by simp
next
  case (Cons it rest)
  obtain r1 w1 evs1 where p: "process_item env ps i it w = (r1, w1, evs1)"
    by (cases "process_item env ps i it w") auto
  define x where "x = (case r1 of Inr out \<Rightarrow> out | Inl e \<Rightarrow> degraded ps it e)"
  obtain outs w' tr where rec: "run_items env ps (Suc i) rest w1 (acc @ [x]) = (Inr outs, w', tr)"
    using Cons.IH by blast
  have "run_items env ps i (it # rest) w acc = (Inr outs, w', evs1 @ tr)"
    using p rec assms by (cases r1) (simp_all add: x_def)
  then show ?case by blast
qed

lemma degraded_named_field:
  assumes "binary it = Some b" and "map_of b (param_binaryProperty ps) = Some d"
  shows "json_fileName (degraded ps it e) = (case data_fileName d of None \<Rightarrow> ''unknown'' | Some f \<Rightarrow> f)"
    and "json_mimeType (degraded ps it e) = (case data_mimeType d of None \<Rightarrow> [] | Some m \<Rightarrow> m)"
  using assms by (simp_all add: degraded_def js_get_def)

lemma degraded_first_field:
  assumes "binary it = Some ((key, d) # others)"
    and "js_get ((key, d) # others) (param_binaryProperty ps) = None"
  shows "json_fileName (degraded ps it e) = (case data_fileName d of None \<Rightarrow> ''unknown'' | Some f \<Rightarrow> f)"
    and "json_mimeType (degraded ps it e) = (case data_mimeType d of None \<Rightarrow> [] | Some m \<Rightarrow> m)"
  using assms by (simp_all add: degraded_def)

lemma degraded_no_binary:
  assumes "binary it = None \<or> binary it = Some []"
    and "param_binaryProperty ps \<notin> set Object_prototype_keys"
  shows "json_fileName (degraded ps it e) = ''unknown''"
    and "json_mimeType (degraded ps it e) = []"
  using assms by (auto simp: degraded_def js_get_def)

subsection \<open>C4: the method decides which fields are null\<close>

text \<open>
  C4. In every record that \<open>execute\<close> returns, the confidence is non-null exactly when the
  method is \<^verbatim>\<open>ocr\<close> or \<^verbatim>\<open>pdf-ocr\<close>, and the page count is non-null exactly when the
  method starts with \<^verbatim>\<open>pdf\<close>. This covers every successfully processed item; the
  records of failed items have all three fields null.
\<close>

theorem execute_nullability:
  assumes "fst (execute env ps items) = Inr outs" and "out \<in> set outs"
  shows "(json_confidence out \<noteq> None
            \<longleftrightarrow> json_method out = Some ''ocr'' \<or> json_method out = Some ''pdf-ocr'')
         \<and> (json_pageCount out \<noteq> None
            \<longleftrightarrow> (case json_method out of None \<Rightarrow> False | Some m \<Rightarrow> startsWith m ''pdf''))"
proof -
  obtain k where k: "k < length outs" "outs ! k = out"
    using assms(2) by (auto simp: in_set_conv_nth)
  have klen: "k < length items"
    using k(1) execute_outputs(1)[OF assms(1)] by simp
  let ?r = "fst (process_item env ps k (items ! k) (worker_at env ps items k))"
  show ?thesis
  proof (cases ?r)
    case (Inl e)
    then have "out = degraded ps (items ! k) e"
      using execute_outputs(2)[OF assms(1) klen] k(2) by simp
    then show ?thesis
      using degraded_fields[of ps "items ! k" e] by simp
  next
    case (Inr out')
    then have same: "out' = out"
      using execute_outputs(2)[OF assms(1) klen] k(2) by simp
    obtain w' evs where p: "process_item env ps k (items ! k) (worker_at env ps items k)
                              = (Inr out, w', evs)"
      using Inr same by (cases "process_item env ps k (items ! k) (worker_at env ps items k)") auto
    from p show ?thesis
    proof (rule process_item_InrE)
      fix buffer fileName mimeType ft body pageCount confidence tag evs0 evs2 evs3
      assume ex: "extract_item env ps (items ! k) buffer ft w'
                    = (Inr (body, pageCount, confidence, tag), evs3)"
        and out: "out = \<lparr>json_text = Some body, json_error = None, json_fileName = fileName,
                 json_mimeType = mimeType, json_fileType = Some ft, json_pageCount = pageCount,
                 json_confidence = confidence,
                 json_language = (if needsOcr_of ft (items ! k) then Some (param_ocrLanguage ps) else None),
                 json_method = Some tag\<rparr>"
      show ?thesis
        using extract_item_result[OF ex] by (simp add: out)
    qed
  qed
qed

theorem execute_nullability_witness:
  "fst (execute (demo_env ''short'') demo_params demo_batch) = Inr demo_outputs
   \<and> demo_outputs ! 1 \<in> set demo_outputs
   \<and> json_confidence (demo_outputs ! 1) \<noteq> None
   \<and> json_method (demo_outputs ! 1) = Some ''pdf-ocr''
   \<and> json_pageCount (demo_outputs ! 1) \<noteq> None
   \<and> startsWith ''pdf-ocr'' ''pdf''"
proof -
  have run: "fst (execute (demo_env ''short'') demo_params demo_batch) = Inr demo_outputs"
    by (simp add: demo_run)
  have mem: "demo_outputs ! 1 \<in> set demo_outputs"
    by (simp add: demo_outputs_def)
  have m: "json_method (demo_outputs ! 1) = Some ''pdf-ocr''"
    by (simp add: demo_outputs_def)
  show ?thesis
    using execute_nullability[OF run mem] run mem m by (simp add: startsWith_def)
qed

subsection \<open>C3: the language field\<close>

text \<open>
  C3, as the code has it. For every successfully processed item, \<open>language\<close> is the
  configured OCR language exactly when the item needed the engine, that is when its kind
  is image, or its kind is pdf and its PDF strategy is not \<^verbatim>\<open>text\<close>; otherwise it is
  null. Hence it is the configured language whenever OCR produced the text (method
  \<^verbatim>\<open>ocr\<close> or \<^verbatim>\<open>pdf-ocr\<close>), null for every method other than the three of image and
  PDF, and for the method \<^verbatim>\<open>pdf-text\<close> null only under the strategy \<^verbatim>\<open>text\<close>.
\<close>

theorem execute_language:
  assumes "fst (execute env ps items) = Inr outs" and "k < length items"
    and "json_error (outs ! k) = None"
  shows "json_language (outs ! k) =
           (if json_fileType (outs ! k) = Some (Own Image)
               \<or> (json_fileType (outs ! k) = Some (Own Pdf)
                   \<and> param_pdfStrategy (items ! k) \<noteq> ''text'')
            then Some (param_ocrLanguage ps) else None)
         \<and> (json_method (outs ! k) = Some ''ocr'' \<or> json_method (outs ! k) = Some ''pdf-ocr''
              \<longrightarrow> json_language (outs ! k) = Some (param_ocrLanguage ps))
         \<and> (json_method (outs ! k) = Some ''pdf-text''
              \<longrightarrow> json_language (outs ! k) =
                    (if param_pdfStrategy (items ! k) = ''text'' then None
                     else Some (param_ocrLanguage ps)))
         \<and> (json_method (outs ! k) \<noteq> Some ''ocr'' \<and> json_method (outs ! k) \<noteq> Some ''pdf-ocr''
              \<and> json_method (outs ! k) \<noteq> Some ''pdf-text''
              \<longrightarrow> json_language (outs ! k) = None)"
proof -
  let ?it = "items ! k"
  let ?r = "fst (process_item env ps k ?it (worker_at env ps items k))"
  have "\<exists>out. ?r = Inr out \<and> outs ! k = out"
  proof (cases ?r)
    case (Inl e)
    then have "outs ! k = degraded ps ?it e"
      using execute_outputs(2)[OF assms(1,2)] by simp
    then show ?thesis
      using assms(3) degraded_fields[of ps ?it e] by simp
  next
    case (Inr out)
    then show ?thesis
      using execute_outputs(2)[OF assms(1,2)] by simp
  qed
  then obtain w' evs where p: "process_item env ps k ?it (worker_at env ps items k)
                              = (Inr (outs ! k), w', evs)"
    by (cases "process_item env ps k ?it (worker_at env ps items k)") auto
  from p show ?thesis
  proof (rule process_item_InrE)
    fix buffer fileName mimeType ft body pageCount confidence tag evs0 evs2 evs3
    assume ex: "extract_item env ps ?it buffer ft w'
                  = (Inr (body, pageCount, confidence, tag), evs3)"
      and out: "outs ! k = \<lparr>json_text = Some body, json_error = None, json_fileName = fileName,
               json_mimeType = mimeType, json_fileType = Some ft, json_pageCount = pageCount,
               json_confidence = confidence,
               json_language = (if needsOcr_of ft ?it then Some (param_ocrLanguage ps) else None),
               json_method = Some tag\<rparr>"
    show ?thesis
      using extract_item_method[OF ex] by (auto simp: out needsOcr_of_def)
  qed
qed

theorem execute_language_witness:
  "fst (execute (demo_env ''short'') demo_params demo_batch) = Inr demo_outputs
   \<and> 1 < length demo_batch
   \<and> json_error (demo_outputs ! 1) = None
   \<and> json_method (demo_outputs ! 1) = Some ''pdf-ocr''
   \<and> json_language (demo_outputs ! 1) = Some (param_ocrLanguage demo_params)"
proof -
  have run: "fst (execute (demo_env ''short'') demo_params demo_batch) = Inr demo_outputs"
    by (simp add: demo_run)
  have k: "1 < length demo_batch"
    by (simp add: demo_batch_def)
  have ok: "json_error (demo_outputs ! 1) = None"
    by (simp add: demo_outputs_def)
  have m: "json_method (demo_outputs ! 1) = Some ''pdf-ocr''"
    by (simp add: demo_outputs_def)
  show ?thesis
    using execute_language[OF run k ok] run k ok m by (simp add: demo_outputs_def demo_batch_def demo_item_def)
qed

text \<open>
  C3, as the specification states it, fails: a PDF under the strategy \<^verbatim>\<open>auto\<close> whose text
  layer is long enough is returned with the method \<^verbatim>\<open>pdf-text\<close>, no page is recognised,
  and \<open>language\<close> is the configured language, not null.
\<close>

theorem language_without_ocr:
  "execute (demo_env ''  hello world '') demo_params
     [(demo_item (Some ''b.pdf'') (Some ''application/pdf'') ''auto'')
        \<lparr>param_minTextThreshold := 5\<rparr>] =
   (Inr [\<lparr>json_text = Some ''hello world'', json_error = None,
          json_fileName = ''b.pdf'', json_mimeType = ''application/pdf'',
          json_fileType = Some (Own Pdf), json_pageCount = Some 2, json_confidence = None,
          json_language = Some ''fra'', json_method = Some ''pdf-text''\<rparr>],
    [CreateWorker ''fra'' True, GetDocumentProxy, ExtractText, Terminate])"
  by code_simp

subsection \<open>C8: continuation after the failure of an item\<close>

text \<open>
  C8. When the continuation policy is enabled (and \<open>terminate\<close> does not throw), the batch
  is not aborted: \<open>execute\<close> returns one record per item, in order. For every item whose
  processing throws an error \<open>e\<close>, at the state of the engine handle the loop has when it
  reaches that item, the record at the item's index is the one built by the
  \<^verbatim>\<open>catch\<close> block: the error message, every other result field null, and the file name and
  MIME type of the item's binary field of the configured name, or of its first binary field
  when the configured name finds nothing (\<^verbatim>\<open>unknown\<close> and the empty string when the
  field lacks them).
\<close>

theorem execute_continue_on_fail:
  assumes "continueOnFail env" and "\<forall>x. terminate env x = None"
  shows "\<exists>outs. fst (execute env ps items) = Inr outs \<and> length outs = length items
           \<and> (\<forall>k < length items. \<forall>e.
                 fst (process_item env ps k (items ! k) (worker_at env ps items k)) = Inl e
                 \<longrightarrow> outs ! k = degraded ps (items ! k) e
                     \<and> json_error (outs ! k) = Some (message e)
                     \<and> json_text (outs ! k) = None \<and> json_fileType (outs ! k) = None
                     \<and> json_pageCount (outs ! k) = None \<and> json_confidence (outs ! k) = None
                     \<and> json_language (outs ! k) = None \<and> json_method (outs ! k) = None
                     \<and> (\<forall>b d. binary (items ! k) = Some b
                               \<and> map_of b (param_binaryProperty ps) = Some d
                          \<longrightarrow> json_fileName (outs ! k)
                                = (case data_fileName d of None \<Rightarrow> ''unknown'' | Some f \<Rightarrow> f)
                              \<and> json_mimeType (outs ! k)
                                = (case data_mimeType d of None \<Rightarrow> [] | Some m \<Rightarrow> m))
                     \<and> (\<forall>key d others. binary (items ! k) = Some ((key, d) # others)
                               \<and> js_get ((key, d) # others) (param_binaryProperty ps) = None
                          \<longrightarrow> json_fileName (outs ! k)
                                = (case data_fileName d of None \<Rightarrow> ''unknown'' | Some f \<Rightarrow> f)
                              \<and> json_mimeType (outs ! k)
                                = (case data_mimeType d of None \<Rightarrow> [] | Some m \<Rightarrow> m)))"
proof -
  obtain outs w' tr where run: "run_items env ps 0 items None [] = (Inr outs, w', tr)"
    using run_items_continue[OF assms(1)] by blast
  have ex: "fst (execute env ps items) = Inr outs"
    using run assms(2) by (simp add: execute_def split: option.splits)
  have len: "length outs = length items"
    using execute_outputs(1)[OF ex] .
  have each: "outs ! k = degraded ps (items ! k) e"
    if "k < length items"
      and "fst (process_item env ps k (items ! k) (worker_at env ps items k)) = Inl e" for k e
    using execute_outputs(2)[OF ex that(1)] that(2) by simp
  show ?thesis
    using ex len each
    by (intro exI[of _ outs])
       (simp add: degraded_fields degraded_named_field degraded_first_field)
qed

theorem execute_continue_on_fail_witness:
  "continueOnFail (demo_env ''short'') \<and> (\<forall>x. terminate (demo_env ''short'') x = None)
   \<and> fst (process_item (demo_env ''short'') demo_params 2 (demo_batch ! 2)
            (worker_at (demo_env ''short'') demo_params demo_batch 2))
      = Inl (NodeOperationError ''Unsupported file type: application/x-unknown'' 2)
   \<and> fst (execute (demo_env ''short'') demo_params demo_batch) = Inr demo_outputs
   \<and> length demo_outputs = length demo_batch
   \<and> demo_outputs ! 2 =
        degraded demo_params (demo_batch ! 2)
          (NodeOperationError ''Unsupported file type: application/x-unknown'' 2)
   \<and> json_error (demo_outputs ! 2) = Some ''Unsupported file type: application/x-unknown''
   \<and> json_method (demo_outputs ! 2) = None"
proof -
  let ?env = "demo_env ''short''"
  have c: "continueOnFail ?env"
    by (simp add: demo_env_def)
  have t: "\<forall>x. terminate ?env x = None"
    by (simp add: demo_env_def)
  have k: "2 < length demo_batch"
    by (simp add: demo_batch_def)
  have fails: "fst (process_item ?env demo_params 2 (demo_batch ! 2)
            (worker_at ?env demo_params demo_batch 2))
      = Inl (NodeOperationError ''Unsupported file type: application/x-unknown'' 2)"
    by code_simp
  have run: "fst (execute ?env demo_params demo_batch) = Inr demo_outputs"
    by (simp add: demo_run)
  obtain outs where outs: "fst (execute ?env demo_params demo_batch) = Inr outs"
    "length outs = length demo_batch"
    "\<forall>k < length demo_batch. \<forall>e.
         fst (process_item ?env demo_params k (demo_batch ! k)
                (worker_at ?env demo_params demo_batch k)) = Inl e
         \<longrightarrow> outs ! k = degraded demo_params (demo_batch ! k) e
             \<and> json_error (outs ! k) = Some (message e)
             \<and> json_method (outs ! k) = None"
    using execute_continue_on_fail[OF c t, of demo_params demo_batch] by blast
  have same: "outs = demo_outputs"
    using outs(1) run by simp
  have "outs ! 2 = degraded demo_params (demo_batch ! 2)
                     (NodeOperationError ''Unsupported file type: application/x-unknown'' 2)
        \<and> json_error (outs ! 2)
            = Some (message (NodeOperationError ''Unsupported file type: application/x-unknown'' 2))
        \<and> json_method (outs ! 2) = None"
    using outs(3) k fails by blast
  then show ?thesis
    using outs(2) fails c t run unfolding same by (simp add: degraded_fields)
qed

end
